theory Spec2Isabelle
  imports Complex_Main "HOL-Library.Word"
begin

unbundle bit_operations_syntax

section \<open>Geometry utilities (GeoUtils)\<close>

text \<open>
  JavaScript numbers are IEEE doubles. The embedding reads them as real numbers (and as
  integers where the code only ever stores integers), so rounding error, NaN and the
  signed zero are outside the model.
\<close>

record point =
  lat :: real
  lng :: real

definition toRad :: "real \<Rightarrow> real" where
  "toRad deg = deg * pi / 180"

definition toDeg :: "real \<Rightarrow> real" where
  "toDeg rad = rad * 180 / pi"

text \<open>\<open>Math.atan2(y, x)\<close>: the angle of the point \<open>(x, y)\<close>, in \<open>(-pi, pi]\<close>.\<close>

definition atan2 :: "real \<Rightarrow> real \<Rightarrow> real" where
  "atan2 y x =
     (if 0 < x then arctan (y / x)
      else if x < 0 then (if 0 \<le> y then arctan (y / x) + pi else arctan (y / x) - pi)
      else if 0 < y then pi / 2
      else if y < 0 then - (pi / 2)
      else 0)"

text \<open>The \<open>%\<close> operator on numbers: the remainder has the sign of the dividend.\<close>

definition js_rem :: "real \<Rightarrow> real \<Rightarrow> real" where
  "js_rem a b =
     (if 0 \<le> a then a - \<bar>b\<bar> * of_int \<lfloor>a / \<bar>b\<bar>\<rfloor>
      else - ((- a) - \<bar>b\<bar> * of_int \<lfloor>(- a) / \<bar>b\<bar>\<rfloor>))"

definition calculateHeading :: "point \<Rightarrow> point \<Rightarrow> real" where
  "calculateHeading from to =
     (let lat1 = toRad (lat from);
          lat2 = toRad (lat to);
          dLng = toRad (lng to - lng from);
          y = sin dLng * cos lat2;
          x = cos lat1 * sin lat2 - sin lat1 * cos lat2 * cos dLng;
          heading = toDeg (atan2 y x)
      in js_rem (heading + 360) 360)"

definition calculateDistance :: "point \<Rightarrow> point \<Rightarrow> real" where
  "calculateDistance from to =
     (let R = 6371000;
          lat1 = toRad (lat from);
          lat2 = toRad (lat to);
          dLat = toRad (lat to - lat from);
          dLng = toRad (lng to - lng from);
          a = sin (dLat / 2) * sin (dLat / 2)
              + cos lat1 * cos lat2 * sin (dLng / 2) * sin (dLng / 2);
          c = 2 * atan2 (sqrt a) (sqrt (1 - a))
      in R * c)"

definition interpolate :: "point \<Rightarrow> point \<Rightarrow> real \<Rightarrow> point" where
  "interpolate from to t =
     \<lparr> lat = lat from + (lat to - lat from) * t,
       lng = lng from + (lng to - lng from) * t \<rparr>"

text \<open>The loop of \<open>calculateRouteDistance\<close>, with the running total as the accumulator.\<close>

fun routeDistanceLoop :: "real \<Rightarrow> point list \<Rightarrow> real" where
  "routeDistanceLoop tot (a # b # rest) =
     routeDistanceLoop (tot + calculateDistance a b) (b # rest)"
| "routeDistanceLoop tot _ = tot"

definition calculateRouteDistance :: "point list \<Rightarrow> real" where
  "calculateRouteDistance wps = routeDistanceLoop 0 wps"


section \<open>Route Manager\<close>

record RouteManager =
  waypoints :: "point list"
  currentIndex :: int
  startPoint :: "point option"
  endPoint :: "point option"
  totalDistance :: real

definition newRouteManager :: RouteManager where
  "newRouteManager =
     \<lparr> waypoints = [], currentIndex = 0, startPoint = None, endPoint = None,
       totalDistance = 0 \<rparr>"

definition targetSpacing :: real where
  "targetSpacing = 20"

text \<open>
  One round of the outer loop of \<open>preprocessRoute\<close>: the start point of the segment,
  then the interpolated points \<open>j / steps\<close> for \<open>j = 1, ..., steps - 1\<close> when the
  segment is longer than the target spacing.
\<close>

definition segmentPoints :: "point \<Rightarrow> point \<Rightarrow> point list" where
  "segmentPoints a b =
     (let distance = calculateDistance a b
      in a # (if distance > targetSpacing
              then (let steps = nat \<lceil>distance / targetSpacing\<rceil>
                    in map (\<lambda>j. interpolate a b (real j / real steps)) [1..<steps])
              else []))"

fun interpolateSegments :: "point list \<Rightarrow> point list" where
  "interpolateSegments (a # b # rest) = segmentPoints a b @ interpolateSegments (b # rest)"
| "interpolateSegments _ = []"

definition preprocessRoute :: "RouteManager \<Rightarrow> RouteManager" where
  "preprocessRoute r =
     (if length (waypoints r) < 2 then r
      else r\<lparr>waypoints := interpolateSegments (waypoints r) @ [last (waypoints r)]\<rparr>)"

definition setRoute :: "point list \<Rightarrow> RouteManager \<Rightarrow> RouteManager" where
  "setRoute points r =
     (let r1 = r\<lparr>waypoints := points, currentIndex := 0\<rparr>;
          r2 = (if length points > 0
                then r1\<lparr>startPoint := Some (hd points), endPoint := Some (last points)\<rparr>
                else r1);
          r3 = preprocessRoute r2
      in r3\<lparr>totalDistance := calculateRouteDistance (waypoints r3)\<rparr>)"

definition buildRoute :: "RouteManager \<Rightarrow> bool \<times> RouteManager" where
  "buildRoute r =
     (case (startPoint r, endPoint r) of
        (Some s, Some e) \<Rightarrow> (True, setRoute [s, e] r)
      | _ \<Rightarrow> (False, r))"

text \<open>Array reads: an index outside the array reads \<open>undefined\<close>, here \<open>None\<close>.\<close>

definition arrayGet :: "'a list \<Rightarrow> int \<Rightarrow> 'a option" where
  "arrayGet xs i = (if 0 \<le> i \<and> i < int (length xs) then Some (xs ! nat i) else None)"

definition getCurrentWaypoint :: "RouteManager \<Rightarrow> point option" where
  "getCurrentWaypoint r =
     (if currentIndex r < int (length (waypoints r))
      then arrayGet (waypoints r) (currentIndex r) else None)"

definition getNextWaypoint :: "RouteManager \<Rightarrow> point option" where
  "getNextWaypoint r =
     (if currentIndex r + 1 < int (length (waypoints r))
      then arrayGet (waypoints r) (currentIndex r + 1) else None)"

definition advance :: "RouteManager \<Rightarrow> bool \<times> RouteManager" where
  "advance r =
     (if currentIndex r < int (length (waypoints r)) - 1
      then (True, r\<lparr>currentIndex := currentIndex r + 1\<rparr>)
      else (False, r))"

definition goBack :: "RouteManager \<Rightarrow> bool \<times> RouteManager" where
  "goBack r =
     (if currentIndex r > 0
      then (True, r\<lparr>currentIndex := currentIndex r - 1\<rparr>)
      else (False, r))"



definition getHeadingToNext :: "RouteManager \<Rightarrow> real" where
  "getHeadingToNext r =
     (case (getCurrentWaypoint r, getNextWaypoint r) of
        (Some current, Some next) \<Rightarrow> calculateHeading current next
      | _ \<Rightarrow> 0)"

definition getProgress :: "RouteManager \<Rightarrow> real" where
  "getProgress r =
     (if length (waypoints r) \<le> 1 then 0
      else (real_of_int (currentIndex r) / (real (length (waypoints r)) - 1)) * 100)"

definition isComplete :: "RouteManager \<Rightarrow> bool" where
  "isComplete r \<longleftrightarrow> currentIndex r \<ge> int (length (waypoints r)) - 1"

definition hasRoute :: "RouteManager \<Rightarrow> bool" where
  "hasRoute r \<longleftrightarrow> length (waypoints r) > 1"

definition reset :: "RouteManager \<Rightarrow> RouteManager" where
  "reset r = r\<lparr>currentIndex := 0\<rparr>"

definition clearRoute :: "RouteManager \<Rightarrow> RouteManager" where
  "clearRoute r = newRouteManager"


section \<open>Polyline decoding (GeoUtils.decodePolyline)\<close>

text \<open>
  A JavaScript string is a sequence of UTF-16 code units. \<open>charCodeAt\<close> past the end
  is NaN, here \<open>None\<close>.
\<close>

type_synonym js_string = "nat list"

definition codeUnits :: "string \<Rightarrow> js_string" where
  "codeUnits s = map of_char s"

definition charCodeAt :: "js_string \<Rightarrow> nat \<Rightarrow> nat option" where
  "charCodeAt s i = (if i < length s then Some (s ! i) else None)"

text \<open>
  One \<open>do ... while (byte >= 0x20)\<close> loop of \<open>decodePolyline\<close>: it returns the index
  after the chunks it read and the 32-bit \<open>result\<close>. The bitwise operators work on
  32-bit integers, and \<open><<\<close> takes its shift count modulo 32. With NaN for \<open>byte\<close>
  the chunk adds no bits and the comparison \<open>byte >= 0x20\<close> is false.
\<close>

function readChunks :: "js_string \<Rightarrow> nat \<Rightarrow> nat \<Rightarrow> 32 word \<Rightarrow> nat \<times> 32 word" where
  "readChunks encoded index shift result =
     (case charCodeAt encoded index of
        None \<Rightarrow> (index + 1, result)
      | Some code \<Rightarrow>
          (let byte = int code - 63;
               result' = result OR push_bit (shift mod 32) (word_of_int byte AND 0x1f)
           in if byte \<ge> 0x20 then readChunks encoded (index + 1) (shift + 5) result'
              else (index + 1, result')))"
  by pat_completeness auto
termination
  by (relation "measure (\<lambda>(encoded, index, shift, result). length encoded - index)")
     (auto simp: charCodeAt_def split: if_splits)

declare readChunks.simps [simp del]

text \<open>\<open>(result & 1) ? ~(result >> 1) : (result >> 1)\<close>, read as a signed number.\<close>

definition unzigzag :: "32 word \<Rightarrow> int" where
  "unzigzag result =
     sint (if result AND 1 \<noteq> 0 then NOT (signed_drop_bit 1 result)
           else signed_drop_bit 1 result)"

lemma readChunks_index: "index < fst (readChunks encoded index shift result)"
proof (induction encoded index shift result rule: readChunks.induct)
  case (1 encoded index shift result)
  show ?case
  proof (cases "charCodeAt encoded index")
    case None
    then show ?thesis by (subst readChunks.simps) simp
  next
    case (Some code)
    show ?thesis
    proof (cases "int code - 63 \<ge> 0x20")
      case True
      with Some 1 [OF Some refl refl True] show ?thesis
        by (subst readChunks.simps) (simp add: Let_def less_imp_le Suc_lessD)
    next
      case False
      with Some show ?thesis by (subst readChunks.simps) (simp add: Let_def)
    qed
  qed
qed

text \<open>
  The outer \<open>while (index < encoded.length)\<close> loop. \<open>lat\<close> and \<open>lng\<close> of the source
  are the integer sums \<open>lat_e5\<close> and \<open>lng_e5\<close>.
\<close>

function decodeLoop :: "js_string \<Rightarrow> nat \<Rightarrow> int \<Rightarrow> int \<Rightarrow> point list \<Rightarrow> point list" where
  "decodeLoop encoded index lat_e5 lng_e5 points =
     (if index < length encoded then
        (let r1 = readChunks encoded index 0 0;
             lat' = lat_e5 + unzigzag (snd r1);
             r2 = readChunks encoded (fst r1) 0 0;
             lng' = lng_e5 + unzigzag (snd r2)
         in decodeLoop encoded (fst r2) lat' lng'
              (points @ [\<lparr>lat = real_of_int lat' / 100000, lng = real_of_int lng' / 100000\<rparr>]))
      else points)"
  by pat_completeness auto
termination
proof (relation "measure (\<lambda>(encoded, index, lat_e5, lng_e5, points). length encoded - index)")
  show "wf (measure (\<lambda>(encoded, index, lat_e5, lng_e5, points). length encoded - index))"
    by simp
next
  fix encoded :: js_string and index :: nat and lat_e5 lng_e5 :: int and points :: "point list"
    and r1 lat' r2 lng'
  assume lt: "index < length encoded"
    and r1: "r1 = readChunks encoded index 0 0"
    and r2: "r2 = readChunks encoded (fst r1) 0 0"
  have "index < fst r1" unfolding r1 by (rule readChunks_index)
  also have "fst r1 < fst r2" unfolding r2 by (rule readChunks_index)
  finally show "((encoded, fst r2, lat', lng',
        points @ [\<lparr>lat = real_of_int lat' / 100000, lng = real_of_int lng' / 100000\<rparr>]),
       (encoded, index, lat_e5, lng_e5, points))
      \<in> measure (\<lambda>(encoded, index, lat_e5, lng_e5, points). length encoded - index)"
    using lt by simp
qed

declare decodeLoop.simps [simp del]

definition decodePolyline :: "js_string \<Rightarrow> point list" where
  "decodePolyline encoded = decodeLoop encoded 0 0 0 []"


text \<open>
  The encoded polyline format, for comparison: every character has a code in 63..126,
  a value is a run of chunks of which exactly the last has no continuation bit
  (\<open>code - 63 < 32\<close>), and the values come in latitude/longitude pairs.
\<close>

fun polylineValues :: "js_string \<Rightarrow> bool \<Rightarrow> nat \<Rightarrow> nat option" where
  "polylineValues [] inValue n = (if inValue then None else Some n)"
| "polylineValues (c # cs) inValue n =
     (if c < 63 \<or> 126 < c then None
      else if c - 63 \<ge> 32 then polylineValues cs True n
      else polylineValues cs False (n + 1))"

definition spec_wellFormedPolyline :: "js_string \<Rightarrow> bool" where
  "spec_wellFormedPolyline encoded =
     (case polylineValues encoded False 0 of None \<Rightarrow> False | Some n \<Rightarrow> even n)"


section \<open>Pre-cache Manager (CacheManager)\<close>

subsection \<open>Sets in insertion order\<close>

text \<open>
  A JavaScript \<open>Set\<close> keeps its elements in insertion order: \<open>add\<close> of an element
  already present changes nothing, \<open>delete\<close> removes the element, and \<open>values()\<close>
  iterates from the oldest element. It is modelled by the list of its elements, oldest
  first.
\<close>

definition set_has :: "'a list \<Rightarrow> 'a \<Rightarrow> bool" where
  "set_has s k = (k \<in> set s)"

definition set_add :: "'a \<Rightarrow> 'a list \<Rightarrow> 'a list" where
  "set_add k s = (if set_has s k then s else s @ [k])"

definition set_delete :: "'a \<Rightarrow> 'a list \<Rightarrow> 'a list" where
  "set_delete k s = removeAll k s"

text \<open>
  \<open>Array.prototype.slice(start, stop)\<close> on integers: a negative bound counts from the
  end, and both bounds are cut to the array.
\<close>

definition slice :: "'a list \<Rightarrow> int \<Rightarrow> int \<Rightarrow> 'a list" where
  "slice xs start stop =
     (let len = int (length xs);
          k = (if start < 0 then max (len + start) 0 else min start len);
          final = (if stop < 0 then max (len + stop) 0 else min stop len)
      in take (nat (final - k)) (drop (nat k) xs))"

subsection \<open>Keys\<close>

text \<open>
  \<open>getPointKey\<close> builds the string \<open>lat.toFixed(5) + "," + lng.toFixed(5)\<close>.
  \<open>x.toFixed(5)\<close> writes a minus sign when \<open>x < 0\<close> and then the digits of the integer
  \<open>n\<close> nearest to \<open>|x| * 10^5\<close> (the larger one on a tie), so the sign and \<open>n\<close> determine
  the string; the key is modelled by these two values for each coordinate.
\<close>

type_synonym point_key = "(bool \<times> int) \<times> (bool \<times> int)"

definition toFixed5 :: "real \<Rightarrow> bool \<times> int" where
  "toFixed5 x = (x < 0, \<lfloor>\<bar>x\<bar> * 100000 + 1 / 2\<rfloor>)"

definition getPointKey :: "point \<Rightarrow> point_key" where
  "getPointKey p = (toFixed5 (lat p), toFixed5 (lng p))"

subsection \<open>State\<close>

record CacheManager =
  cached :: "point_key list"
  loading :: "point_key list"
  cacheAhead :: int
  maxCacheSize :: nat
  tileCache :: "string list"

definition newCacheManager :: CacheManager where
  "newCacheManager =
     \<lparr> cached = [], loading = [], cacheAhead = 5, maxCacheSize = 50, tileCache = [] \<rparr>"

subsection \<open>Eviction\<close>

text \<open>
  The loop of \<open>trimCache\<close>: \<open>iterator\<close> holds what \<open>this.cached.values()\<close> has still to
  visit. Each round takes the next key from the iterator and deletes it from the set; an
  exhausted iterator yields \<open>undefined\<close>, whose deletion changes nothing.
\<close>

fun trimLoop :: "nat \<Rightarrow> point_key list \<Rightarrow> point_key list \<Rightarrow> point_key list" where
  "trimLoop 0 iterator s = s"
| "trimLoop (Suc n) [] s = s"
| "trimLoop (Suc n) (key # iterator) s = trimLoop n iterator (set_delete key s)"

definition trimCache :: "CacheManager \<Rightarrow> CacheManager" where
  "trimCache cm =
     (if length (cached cm) > maxCacheSize cm
      then (let toRemove = length (cached cm) - maxCacheSize cm
            in cm\<lparr>cached := trimLoop toRemove (cached cm) (cached cm)\<rparr>)
      else cm)"

subsection \<open>precachePoint as a coroutine\<close>

text \<open>
  An \<open>async\<close> function runs until its first \<open>await\<close>, and is resumed later with the way
  the awaited promise settled. \<open>precachePoint\<close> has two awaits, hence three pieces:
  the call (up to \<open>await this.findNearestPanoId(point)\<close>), the resumption after the
  panorama lookup (up to \<open>await this.precachePanorama(panoId)\<close>), and the resumption
  after the tiles were requested. A suspended call is a \<open>precache_task\<close>: its local
  variables and the await it stands at. Each piece returns the task when the call suspends
  again, and \<open>None\<close> when it has returned.
\<close>

datatype 'a settled = Fulfilled 'a | Rejected

datatype precache_pc = AwaitFindNearestPanoId | AwaitPrecachePanorama

record precache_task =
  taskPoint :: point
  taskKey :: point_key
  taskPc :: precache_pc

text \<open>The \<open>finally\<close> block of \<open>precachePoint\<close> and the call of \<open>trimCache\<close> after it.\<close>

definition precachePoint_finish :: "point_key \<Rightarrow> CacheManager \<Rightarrow> CacheManager" where
  "precachePoint_finish key cm = trimCache (cm\<lparr>loading := set_delete key (loading cm)\<rparr>)"

definition precachePoint_call :: "point \<Rightarrow> CacheManager \<Rightarrow> precache_task option \<times> CacheManager" where
  "precachePoint_call p cm =
     (let key = getPointKey p
      in if set_has (cached cm) key \<or> set_has (loading cm) key then (None, cm)
         else (Some \<lparr>taskPoint = p, taskKey = key, taskPc = AwaitFindNearestPanoId\<rparr>,
               cm\<lparr>loading := set_add key (loading cm)\<rparr>))"

text \<open>
  After \<open>findNearestPanoId\<close>: a rejection goes through \<open>catch\<close> and \<open>finally\<close>; an
  identifier that is \<open>null\<close> or the empty string skips the \<open>if (panoId)\<close> block.
\<close>

definition precachePoint_afterFind ::
  "precache_task \<Rightarrow> string option settled \<Rightarrow> CacheManager \<Rightarrow> precache_task option \<times> CacheManager" where
  "precachePoint_afterFind task outcome cm =
     (case outcome of
        Fulfilled (Some panoId) \<Rightarrow>
          (if panoId \<noteq> [] then (Some (task\<lparr>taskPc := AwaitPrecachePanorama\<rparr>), cm)
           else (None, precachePoint_finish (taskKey task) cm))
      | Fulfilled None \<Rightarrow> (None, precachePoint_finish (taskKey task) cm)
      | Rejected \<Rightarrow> (None, precachePoint_finish (taskKey task) cm))"

definition precachePoint_afterPanorama ::
  "precache_task \<Rightarrow> unit settled \<Rightarrow> CacheManager \<Rightarrow> precache_task option \<times> CacheManager" where
  "precachePoint_afterPanorama task outcome cm =
     (case outcome of
        Fulfilled u \<Rightarrow>
          (None, precachePoint_finish (taskKey task)
                   (cm\<lparr>cached := set_add (taskKey task) (cached cm)\<rparr>))
      | Rejected \<Rightarrow> (None, precachePoint_finish (taskKey task) cm))"

definition precachePoint_resume ::
  "precache_task \<Rightarrow> string option settled \<Rightarrow> CacheManager \<Rightarrow> precache_task option \<times> CacheManager" where
  "precachePoint_resume task outcome cm =
     (case taskPc task of
        AwaitFindNearestPanoId \<Rightarrow> precachePoint_afterFind task outcome cm
      | AwaitPrecachePanorama \<Rightarrow>
          precachePoint_afterPanorama task
            (case outcome of Fulfilled x \<Rightarrow> Fulfilled () | Rejected \<Rightarrow> Rejected) cm)"

subsection \<open>precacheRoute\<close>

text \<open>
  The \<open>for ... of\<close> loop of \<open>precacheRoute\<close>. The calls of \<open>precachePoint\<close> are not
  awaited: each runs up to its first await, and the loop collects the calls that
  suspended there (the fetch sequences it started).
\<close>

fun precacheLoop ::
  "point list \<Rightarrow> precache_task list \<Rightarrow> CacheManager \<Rightarrow> precache_task list \<times> CacheManager" where
  "precacheLoop [] started cm = (started, cm)"
| "precacheLoop (p # upcoming) started cm =
     (let key = getPointKey p
      in if \<not> set_has (cached cm) key \<and> \<not> set_has (loading cm) key
         then (case precachePoint_call p cm of
                 (None, cm') \<Rightarrow> precacheLoop upcoming started cm'
               | (Some task, cm') \<Rightarrow> precacheLoop upcoming (started @ [task]) cm')
         else precacheLoop upcoming started cm)"

definition precacheRoute ::
  "point list \<Rightarrow> int \<Rightarrow> CacheManager \<Rightarrow> precache_task list \<times> CacheManager" where
  "precacheRoute wps idx cm =
     (let upcoming = slice wps idx (idx + cacheAhead cm)
      in precacheLoop upcoming [] cm)"

subsection \<open>The other operations\<close>

definition preloadImage_onload :: "string \<Rightarrow> CacheManager \<Rightarrow> CacheManager" where
  "preloadImage_onload url cm = cm\<lparr>tileCache := set_add url (tileCache cm)\<rparr>"

definition isCached :: "point \<Rightarrow> CacheManager \<Rightarrow> bool" where
  "isCached p cm = set_has (cached cm) (getPointKey p)"

definition clearCache :: "CacheManager \<Rightarrow> CacheManager" where
  "clearCache cm = cm\<lparr>cached := [], loading := [], tileCache := []\<rparr>"

definition setCacheAhead :: "int \<Rightarrow> CacheManager \<Rightarrow> CacheManager" where
  "setCacheAhead n cm = cm\<lparr>cacheAhead := max 1 (min 20 n)\<rparr>"

subsection \<open>The cooperative schedule\<close>

text \<open>
  Between two suspension points exactly one of these pieces of code runs. A schedule is a
  list of them; a resumption may name any task, so the schedules cover every
  interleaving of the suspended calls (and more).
\<close>

datatype cache_event =
    CallPrecacheRoute "point list" int
  | CallPrecachePoint point
  | ResumePrecachePoint precache_task "string option settled"
  | ImageLoaded string
  | CallClear
  | CallSetCacheAhead int

fun cache_step :: "cache_event \<Rightarrow> CacheManager \<Rightarrow> CacheManager" where
  "cache_step (CallPrecacheRoute wps idx) cm = snd (precacheRoute wps idx cm)"
| "cache_step (CallPrecachePoint p) cm = snd (precachePoint_call p cm)"
| "cache_step (ResumePrecachePoint task outcome) cm = snd (precachePoint_resume task outcome cm)"
| "cache_step (ImageLoaded url) cm = preloadImage_onload url cm"
| "cache_step CallClear cm = clearCache cm"
| "cache_step (CallSetCacheAhead n) cm = setCacheAhead n cm"

definition cache_run :: "cache_event list \<Rightarrow> CacheManager \<Rightarrow> CacheManager" where
  "cache_run events cm = fold cache_step events cm"

text \<open>
  A run of insertions: each task is resumed at its last await, with the tile requests
  settled, which is the one place where \<open>precachePoint\<close> adds a key to the cached set.
\<close>

definition completeAll :: "precache_task list \<Rightarrow> CacheManager \<Rightarrow> CacheManager" where
  "completeAll tasks cm =
     fold (\<lambda>task c. snd (precachePoint_afterPanorama task (Fulfilled ()) c)) tasks cm"

definition cache_inv :: "CacheManager \<Rightarrow> bool" where
  "cache_inv cm \<longleftrightarrow> set (loading cm) \<inter> set (cached cm) = {}"


section \<open>Transition Engine\<close>

subsection \<open>State\<close>

record TransitionSettings =
  enabled :: bool
  duration :: real
  easing :: string
  fadeOpacity :: real

text \<open>
  The two overlay elements are kept by the style properties the engine writes: their
  opacity, their CSS transition (duration and easing) and the source of the image.
\<close>

record TransitionEngine =
  isTransitioning :: bool
  settings :: TransitionSettings
  overlayOpacity :: real
  overlayTransition :: "real \<times> string"
  imageOverlayOpacity :: real
  imageOverlayTransition :: "real \<times> string"
  imageOverlaySrc :: "string option"

definition newTransitionEngine :: TransitionEngine where
  "newTransitionEngine =
     \<lparr> isTransitioning = False,
       settings = \<lparr>enabled = True, duration = 300, easing = ''ease-out'', fadeOpacity = 4 / 5\<rparr>,
       overlayOpacity = 0, overlayTransition = (300, ''ease-out''),
       imageOverlayOpacity = 0, imageOverlayTransition = (300, ''ease-out''),
       imageOverlaySrc = None \<rparr>"

text \<open>
  The external viewer (\<open>StreetViewController\<close>), as far as the engine commands it: where
  it stands and where it looks. A command is answered in one of three ways: it takes
  effect and its promise is fulfilled; it is ignored and the promise is fulfilled
  (\<open>setPov\<close> with no panorama and no position); or it throws, so that the promise is
  rejected.
\<close>

record Viewer =
  position :: "point option"
  heading :: real
  pitch :: real

datatype viewer_reply = Applied | Ignored | Threw

definition viewer_setPosition :: "point \<Rightarrow> viewer_reply \<Rightarrow> Viewer \<Rightarrow> Viewer" where
  "viewer_setPosition latLng reply v =
     (case reply of Applied \<Rightarrow> v\<lparr>position := Some latLng\<rparr> | _ \<Rightarrow> v)"

definition viewer_setPov :: "real \<Rightarrow> real \<Rightarrow> viewer_reply \<Rightarrow> Viewer \<Rightarrow> Viewer" where
  "viewer_setPov h p reply v =
     (case reply of Applied \<Rightarrow> v\<lparr>heading := h, pitch := p\<rparr> | _ \<Rightarrow> v)"

subsection \<open>transitionTo as a coroutine\<close>

text \<open>
  \<open>transitionTo\<close> stands at one of eight awaits: two on the path without transition
  (\<open>settings.enabled\<close> false), six inside the \<open>try\<close> block. A suspended call is a
  \<open>transition_task\<close>: the arguments and the await. A call or a resumption ends
  suspended at the next await, returned with a boolean, or thrown (the promise of
  \<open>transitionTo\<close> is rejected).
\<close>

datatype transition_pc =
    DirectSetPosition
  | DirectSetPov
  | Delay50
  | MoveSetPosition
  | MoveSetPov
  | WaitForLoad
  | Delay100
  | FadeDelay

record transition_task =
  targetPosition :: point
  targetHeading :: "real option"
  tpc :: transition_pc

datatype transition_status = Suspended transition_task | Returned bool | Thrown

type_synonym transition_state = "TransitionEngine \<times> Viewer"

text \<open>The \<open>catch\<close> block followed by the \<open>finally\<close> block.\<close>

definition transitionTo_catch :: "transition_state \<Rightarrow> transition_status \<times> transition_state" where
  "transitionTo_catch s =
     (case s of (e, v) \<Rightarrow>
        (Returned False,
         (e\<lparr>imageOverlayOpacity := 0, overlayOpacity := 0, isTransitioning := False\<rparr>, v)))"

text \<open>
  The call, up to the first await. \<open>capturedFrame\<close> is what \<open>captureFrame()\<close> returns
  (\<open>None\<close> for \<open>null\<close>; the empty string is falsy too), \<open>reply\<close> is the viewer's answer to
  the command this piece issues, if it issues one.
\<close>

definition transitionTo_call ::
  "point \<Rightarrow> real option \<Rightarrow> string option \<Rightarrow> viewer_reply \<Rightarrow> transition_state
     \<Rightarrow> transition_status \<times> transition_state" where
  "transitionTo_call targetPos targetHead capturedFrame reply s =
     (case s of (e, v) \<Rightarrow>
        if isTransitioning e then (Returned False, (e, v))
        else if \<not> enabled (settings e) then
          (Suspended \<lparr>targetPosition = targetPos, targetHeading = targetHead,
                       tpc = DirectSetPosition\<rparr>,
           (e, viewer_setPosition targetPos reply v))
        else
          (let e1 = e\<lparr>isTransitioning := True\<rparr>;
               e2 = (case capturedFrame of
                       Some frame \<Rightarrow>
                         (if frame \<noteq> []
                          then e1\<lparr>imageOverlaySrc := Some frame, imageOverlayOpacity := 1\<rparr>
                          else e1\<lparr>overlayOpacity := fadeOpacity (settings e1)\<rparr>)
                     | None \<Rightarrow> e1\<lparr>overlayOpacity := fadeOpacity (settings e1)\<rparr>)
           in (Suspended \<lparr>targetPosition = targetPos, targetHeading = targetHead,
                            tpc = Delay50\<rparr>,
               (e2, v))))"

text \<open>
  A resumption: \<open>awaited\<close> tells how the awaited promise settled. Outside the \<open>try\<close>
  block a rejection leaves \<open>transitionTo\<close> as an exception; inside it goes to \<open>catch\<close>.
\<close>

definition transitionTo_resume ::
  "transition_task \<Rightarrow> unit settled \<Rightarrow> viewer_reply \<Rightarrow> transition_state
     \<Rightarrow> transition_status \<times> transition_state" where
  "transitionTo_resume task awaited reply s =
     (case s of (e, v) \<Rightarrow>
        (case tpc task of
           DirectSetPosition \<Rightarrow>
             (case awaited of
                Rejected \<Rightarrow> (Thrown, (e, v))
              | Fulfilled u \<Rightarrow>
                  (case targetHeading task of
                     Some h \<Rightarrow> (Suspended (task\<lparr>tpc := DirectSetPov\<rparr>),
                                (e, viewer_setPov h 0 reply v))
                   | None \<Rightarrow> (Returned True, (e, v))))
         | DirectSetPov \<Rightarrow>
             (case awaited of
                Rejected \<Rightarrow> (Thrown, (e, v))
              | Fulfilled u \<Rightarrow> (Returned True, (e, v)))
         | Delay50 \<Rightarrow>
             (case awaited of
                Rejected \<Rightarrow> transitionTo_catch (e, v)
              | Fulfilled u \<Rightarrow>
                  (Suspended (task\<lparr>tpc := MoveSetPosition\<rparr>),
                   (e, viewer_setPosition (targetPosition task) reply v)))
         | MoveSetPosition \<Rightarrow>
             (case awaited of
                Rejected \<Rightarrow> transitionTo_catch (e, v)
              | Fulfilled u \<Rightarrow>
                  (case targetHeading task of
                     Some h \<Rightarrow> (Suspended (task\<lparr>tpc := MoveSetPov\<rparr>),
                                (e, viewer_setPov h 0 reply v))
                   | None \<Rightarrow> (Suspended (task\<lparr>tpc := WaitForLoad\<rparr>), (e, v))))
         | MoveSetPov \<Rightarrow>
             (case awaited of
                Rejected \<Rightarrow> transitionTo_catch (e, v)
              | Fulfilled u \<Rightarrow> (Suspended (task\<lparr>tpc := WaitForLoad\<rparr>), (e, v)))
         | WaitForLoad \<Rightarrow>
             (case awaited of
                Rejected \<Rightarrow> transitionTo_catch (e, v)
              | Fulfilled u \<Rightarrow> (Suspended (task\<lparr>tpc := Delay100\<rparr>), (e, v)))
         | Delay100 \<Rightarrow>
             (case awaited of
                Rejected \<Rightarrow> transitionTo_catch (e, v)
              | Fulfilled u \<Rightarrow>
                  (Suspended (task\<lparr>tpc := FadeDelay\<rparr>),
                   (e\<lparr>imageOverlayOpacity := 0, overlayOpacity := 0\<rparr>, v)))
         | FadeDelay \<Rightarrow>
             (case awaited of
                Rejected \<Rightarrow> transitionTo_catch (e, v)
              | Fulfilled u \<Rightarrow> (Returned True, (e\<lparr>isTransitioning := False\<rparr>, v)))))"

text \<open>The awaits inside the \<open>try\<close> block: the call has entered \<open>InProgress\<close>.\<close>

definition inProgress :: "transition_pc \<Rightarrow> bool" where
  "inProgress pc = (pc \<noteq> DirectSetPosition \<and> pc \<noteq> DirectSetPov)"

text \<open>How many awaits a suspended call still has before it, at most.\<close>

fun awaitsLeft :: "transition_pc \<Rightarrow> nat" where
  "awaitsLeft DirectSetPosition = 2"
| "awaitsLeft DirectSetPov = 1"
| "awaitsLeft Delay50 = 6"
| "awaitsLeft MoveSetPosition = 5"
| "awaitsLeft MoveSetPov = 4"
| "awaitsLeft WaitForLoad = 3"
| "awaitsLeft Delay100 = 2"
| "awaitsLeft FadeDelay = 1"

text \<open>
  A call followed by its resumptions, as long as it is suspended and inputs are left:
  each input is the settlement of the awaited promise and the viewer's reply.
\<close>

fun resumeAll ::
  "(unit settled \<times> viewer_reply) list \<Rightarrow> transition_status \<times> transition_state
     \<Rightarrow> transition_status \<times> transition_state" where
  "resumeAll [] r = r"
| "resumeAll ((awaited, reply) # inputs) (Suspended task, s) =
     resumeAll inputs (transitionTo_resume task awaited reply s)"
| "resumeAll (x # inputs) (Returned b, s) = (Returned b, s)"
| "resumeAll (x # inputs) (Thrown, s) = (Thrown, s)"

text \<open>
  \<open>updateSettings\<close> with an object that has \<open>enabled\<close>, \<open>duration\<close>, both or neither:
  \<open>Object.assign\<close> overwrites the fields the object has and keeps the others.
\<close>

definition updateEngineSettings ::
  "bool option \<Rightarrow> real option \<Rightarrow> TransitionEngine \<Rightarrow> TransitionEngine" where
  "updateEngineSettings newEnabled newDuration e =
     (let st = settings e;
          st1 = (case newEnabled of Some b \<Rightarrow> st\<lparr>enabled := b\<rparr> | None \<Rightarrow> st);
          st2 = (case newDuration of Some d \<Rightarrow> st1\<lparr>duration := d\<rparr> | None \<Rightarrow> st1)
      in e\<lparr>settings := st2,
           overlayTransition := (duration st2, easing st2),
           imageOverlayTransition := (duration st2, easing st2)\<rparr>)"

definition isBusy :: "TransitionEngine \<Rightarrow> bool" where
  "isBusy e = isTransitioning e"


section \<open>Playback orchestrator (StreetFlixController)\<close>

subsection \<open>State\<close>

text \<open>
  Besides the fields of the controller the state holds what the browser keeps for it:
  the pending timeouts (handle and delay; each calls \<open>advanceFrame\<close> when it fires), the
  next handle \<open>setTimeout\<close> will return, and the messages sent to the popup. The DOM of
  the floating controls is reduced to its visibility.
\<close>

datatype message =
    StatusMessage bool bool real string bool
  | ProgressMessage real

record StreetFlixController =
  isPlaying :: bool
  isPaused :: bool
  speed :: string
  playbackTimer :: "nat option"
  autoHeading :: bool
  route :: RouteManager
  cache :: CacheManager
  transitions :: TransitionEngine
  streetView :: Viewer
  timers :: "(nat \<times> real) list"
  nextTimer :: nat
  floatingUIVisible :: bool
  sent :: "message list"

definition newController :: StreetFlixController where
  "newController =
     \<lparr> isPlaying = False, isPaused = False, speed = ''cycling'', playbackTimer = None,
       autoHeading = True, route = newRouteManager, cache = newCacheManager,
       transitions = newTransitionEngine,
       streetView = \<lparr>position = None, heading = 0, pitch = 0\<rparr>,
       timers = [], nextTimer = 1, floatingUIVisible = False, sent = [] \<rparr>"

definition speeds :: "string \<Rightarrow> real option" where
  "speeds name =
     (if name = ''walking'' then Some 2500
      else if name = ''cycling'' then Some 1200
      else if name = ''driving'' then Some 600
      else if name = ''flying'' then Some 250
      else None)"

text \<open>\<open>this.speeds[this.speed] || this.speeds.cycling\<close>\<close>

definition tickInterval :: "StreetFlixController \<Rightarrow> real" where
  "tickInterval s = (case speeds (speed s) of Some ms \<Rightarrow> ms | None \<Rightarrow> 1200)"

definition sendStatusUpdate :: "StreetFlixController \<Rightarrow> StreetFlixController" where
  "sendStatusUpdate s =
     s\<lparr>sent := sent s @ [StatusMessage (isPlaying s) (isPaused s) (getProgress (route s))
                             (speed s) (hasRoute (route s))]\<rparr>"

definition sendProgressUpdate :: "StreetFlixController \<Rightarrow> StreetFlixController" where
  "sendProgressUpdate s = s\<lparr>sent := sent s @ [ProgressMessage (getProgress (route s))]\<rparr>"

text \<open>\<open>this.playbackTimer = setTimeout(() => this.advanceFrame(), interval)\<close>\<close>

definition scheduleTick :: "real \<Rightarrow> StreetFlixController \<Rightarrow> StreetFlixController" where
  "scheduleTick interval s =
     s\<lparr>timers := timers s @ [(nextTimer s, interval)],
       playbackTimer := Some (nextTimer s),
       nextTimer := nextTimer s + 1\<rparr>"

text \<open>
  \<open>if (this.playbackTimer) { clearTimeout(this.playbackTimer); this.playbackTimer = null; }\<close>:
  the handle 0 is falsy, and clearing a handle that is not pending does nothing.
\<close>

definition clearPlaybackTimer :: "StreetFlixController \<Rightarrow> StreetFlixController" where
  "clearPlaybackTimer s =
     (case playbackTimer s of
        None \<Rightarrow> s
      | Some h \<Rightarrow>
          (if h = 0 then s
           else s\<lparr>timers := filter (\<lambda>t. fst t \<noteq> h) (timers s), playbackTimer := None\<rparr>))"

subsection \<open>pause and stop\<close>


definition stop :: "StreetFlixController \<Rightarrow> StreetFlixController" where
  "stop s =
     (let s1 = clearPlaybackTimer (s\<lparr>isPlaying := False, isPaused := False\<rparr>);
          s2 = s1\<lparr>route := reset (route s1), floatingUIVisible := False\<rparr>
      in sendStatusUpdate s2)"

subsection \<open>advanceFrame as a coroutine\<close>

text \<open>
  \<open>advanceFrame\<close> has one await, on the promise of \<open>transitionTo\<close>. The call returns at
  once when playback is not running or the route has no next waypoint; otherwise it ends
  suspended, and hands back the \<open>precachePoint\<close> calls it started (not awaited) and the
  state of the \<open>transitionTo\<close> call it awaits.
\<close>

datatype advance_status =
    AdvanceReturned
  | AdvanceAwaiting transition_status "precache_task list"

definition advanceFrame_call ::
  "string option \<Rightarrow> viewer_reply \<Rightarrow> StreetFlixController
     \<Rightarrow> advance_status \<times> StreetFlixController" where
  "advanceFrame_call capturedFrame reply s =
     (if \<not> isPlaying s \<or> isPaused s then (AdvanceReturned, s)
      else
        (case getNextWaypoint (route s) of
           None \<Rightarrow> (AdvanceReturned, stop s)
         | Some next \<Rightarrow>
             (let warm = precacheRoute (waypoints (route s)) (currentIndex (route s)) (cache s);
                  head = (if autoHeading s then Some (getHeadingToNext (route s)) else None);
                  tr = transitionTo_call next head capturedFrame reply
                         (transitions s, streetView s)
              in (AdvanceAwaiting (fst tr) (fst warm),
                  s\<lparr>cache := snd warm, transitions := fst (snd tr),
                    streetView := snd (snd tr)\<rparr>))))"

text \<open>
  The resumption, with the settlement of the promise of \<open>transitionTo\<close>: its boolean, or a
  rejection, which \<open>advanceFrame\<close> does not catch.
\<close>

definition advanceFrame_resume ::
  "bool settled \<Rightarrow> StreetFlixController \<Rightarrow> StreetFlixController" where
  "advanceFrame_resume awaited s =
     (case awaited of
        Rejected \<Rightarrow> s
      | Fulfilled success \<Rightarrow>
          (let s1 = (if success
                     then sendProgressUpdate (s\<lparr>route := snd (advance (route s))\<rparr>)
                     else s)
           in if isPlaying s1 \<and> \<not> isPaused s1 then scheduleTick (tickInterval s1) s1
              else s1))"


text \<open>A pending timeout fires: it leaves the pending list and calls \<open>advanceFrame\<close>.\<close>

definition timerFires ::
  "nat \<Rightarrow> string option \<Rightarrow> viewer_reply \<Rightarrow> StreetFlixController
     \<Rightarrow> advance_status \<times> StreetFlixController" where
  "timerFires h capturedFrame reply s =
     (if h \<in> fst ` set (timers s)
      then advanceFrame_call capturedFrame reply
             (s\<lparr>timers := filter (\<lambda>t. fst t \<noteq> h) (timers s)\<rparr>)
      else (AdvanceReturned, s))"


section \<open>Example states\<close>

text \<open>
  The route \<open>setRoute\<close> builds from three points about 11 m apart (too close for
  \<open>preprocessRoute\<close> to add points), with the cursor at the start; and the route
  \<open>setRoute\<close> builds from one point.
\<close>

definition threePointRoute :: RouteManager where
  "threePointRoute =
     \<lparr> waypoints = [\<lparr>lat = 0, lng = 0\<rparr>, \<lparr>lat = 0, lng = 1 / 10000\<rparr>,
                     \<lparr>lat = 0, lng = 2 / 10000\<rparr>],
       currentIndex = 0,
       startPoint = Some \<lparr>lat = 0, lng = 0\<rparr>,
       endPoint = Some \<lparr>lat = 0, lng = 2 / 10000\<rparr>,
       totalDistance = calculateRouteDistance
         [\<lparr>lat = 0, lng = 0\<rparr>, \<lparr>lat = 0, lng = 1 / 10000\<rparr>, \<lparr>lat = 0, lng = 2 / 10000\<rparr>] \<rparr>"


text \<open>
  A suspended \<open>precachePoint\<close> call for the point \<open>(i / 1000, 0)\<close>, about to insert its
  key; and a schedule that warms the three-point route, clears the cache and warms it again.
\<close>

definition exampleTask :: "nat \<Rightarrow> precache_task" where
  "exampleTask i =
     \<lparr> taskPoint = \<lparr>lat = real i / 1000, lng = 0\<rparr>,
       taskKey = getPointKey \<lparr>lat = real i / 1000, lng = 0\<rparr>,
       taskPc = AwaitPrecachePanorama \<rparr>"

definition exampleSchedule :: "cache_event list" where
  "exampleSchedule =
     [CallPrecacheRoute (waypoints threePointRoute) 0,
      ResumePrecachePoint (exampleTask 0) (Fulfilled (Some ''pano'')),
      CallClear,
      CallPrecacheRoute (waypoints threePointRoute) 0]"

text \<open>
  States of the transition engine and the viewer: idle; just after a call has entered
  \<open>InProgress\<close> with the fallback overlay; after the viewer was moved and turned, the
  overlay still up; and after the whole transition. \<open>exampleTransition pc\<close> is the call
  to \<open>exampleTarget\<close> with heading 90, suspended at \<open>pc\<close>.
\<close>

definition exampleTarget :: point where
  "exampleTarget = \<lparr>lat = 0, lng = 1 / 10000\<rparr>"

definition exampleIdle :: transition_state where
  "exampleIdle = (newTransitionEngine, \<lparr>position = None, heading = 0, pitch = 0\<rparr>)"

definition exampleStarted :: transition_state where
  "exampleStarted =
     (newTransitionEngine\<lparr>isTransitioning := True, overlayOpacity := 4 / 5\<rparr>,
      \<lparr>position = None, heading = 0, pitch = 0\<rparr>)"

definition exampleBusy :: transition_state where
  "exampleBusy =
     (newTransitionEngine\<lparr>isTransitioning := True, overlayOpacity := 4 / 5\<rparr>,
      \<lparr>position = Some exampleTarget, heading = 90, pitch = 0\<rparr>)"

definition exampleDone :: transition_state where
  "exampleDone = (newTransitionEngine, \<lparr>position = Some exampleTarget, heading = 90, pitch = 0\<rparr>)"

definition exampleTransition :: "transition_pc \<Rightarrow> transition_task" where
  "exampleTransition pc = \<lparr>targetPosition = exampleTarget, targetHeading = Some 90, tpc = pc\<rparr>"


definition playingController :: StreetFlixController where
  "playingController = newController\<lparr>route := threePointRoute, isPlaying := True\<rparr>"


section \<open>Properties of the Route Manager\<close>

subsection \<open>Densification of a two-point route\<close>








subsection \<open>The example route\<close>

text \<open>
  Two points on the equator less than 180 degrees apart are \<open>R * d * pi / 180\<close> metres
  apart. The waypoints of the example route are 11.2 m apart at most, so \<open>setRoute\<close>
  adds no point between them: the example route is the state \<open>setRoute\<close> builds from
  its three points.
\<close>

lemma equator_distance:
  assumes "0 \<le> d" and "d < 180"
  shows "calculateDistance \<lparr>lat = 0, lng = a\<rparr> \<lparr>lat = 0, lng = a + d\<rparr> = 6371000 * (d * pi / 180)"
proof -
  define x where "x = d * pi / 360"
  have x0: "0 \<le> x" using assms(1) by (simp add: x_def)
  have "d * pi < 180 * pi" using assms(2) by simp
  then have x1: "x < pi / 2" by (simp add: x_def)
  have s0: "0 \<le> sin x" using x0 x1 by (intro sin_ge_zero) auto
  have c0: "0 < cos x" using x0 x1 by (intro cos_gt_zero_pi) auto
  have r1: "sqrt (sin x * sin x) = sin x" using s0 by simp
  have "1 - sin x * sin x = cos x * cos x"
    using sin_cos_squared_add [of x] by (simp add: power2_eq_square algebra_simps)
  then have r2: "sqrt (1 - sin x * sin x) = cos x" using c0 by simp
  have "arctan (sin x / cos x) = x"
    using arctan_tan [of x] x0 x1 by (simp add: tan_def)
  then have at: "atan2 (sin x) (cos x) = x" using c0 by (simp add: atan2_def)
  have "calculateDistance \<lparr>lat = 0, lng = a\<rparr> \<lparr>lat = 0, lng = a + d\<rparr>
      = 6371000 * (2 * atan2 (sqrt (sin x * sin x)) (sqrt (1 - sin x * sin x)))"
    by (simp add: calculateDistance_def toRad_def Let_def x_def)
  also have "\<dots> = 6371000 * (2 * x)" by (simp only: r1 r2 at)
  finally show ?thesis by (simp add: x_def)
qed

lemma close_points:
  "\<not> calculateDistance \<lparr>lat = 0, lng = 0\<rparr> \<lparr>lat = 0, lng = 1 / 10000\<rparr> > targetSpacing"
  "\<not> calculateDistance \<lparr>lat = 0, lng = 1 / 10000\<rparr> \<lparr>lat = 0, lng = 2 / 10000\<rparr> > targetSpacing"
proof -
  have "6371000 * ((1 / 10000) * pi / 180) \<le> (20 :: real)"
    using pi_less_4 by simp
  then show "\<not> calculateDistance \<lparr>lat = 0, lng = 0\<rparr> \<lparr>lat = 0, lng = 1 / 10000\<rparr> > targetSpacing"
    using equator_distance [of "1 / 10000" 0] by (simp add: targetSpacing_def)
  have "6371000 * ((1 / 10000) * pi / 180) \<le> (20 :: real)"
    using pi_less_4 by simp
  then show "\<not> calculateDistance \<lparr>lat = 0, lng = 1 / 10000\<rparr> \<lparr>lat = 0, lng = 2 / 10000\<rparr> > targetSpacing"
    using equator_distance [of "1 / 10000" "1 / 10000"] by (simp add: targetSpacing_def)
qed

lemma threePointRoute_setRoute:
  "setRoute [\<lparr>lat = 0, lng = 0\<rparr>, \<lparr>lat = 0, lng = 1 / 10000\<rparr>, \<lparr>lat = 0, lng = 2 / 10000\<rparr>]
     newRouteManager = threePointRoute"
  using close_points
  by (simp add: setRoute_def preprocessRoute_def segmentPoints_def Let_def newRouteManager_def
      threePointRoute_def)

subsection \<open>Jumping\<close>








section \<open>Properties of the polyline decoder\<close>

lemma decodeLoop_unfold:
  "index < length encoded \<Longrightarrow>
     decodeLoop encoded index lat_e5 lng_e5 points =
       decodeLoop encoded (fst (readChunks encoded (fst (readChunks encoded index 0 0)) 0 0))
         (lat_e5 + unzigzag (snd (readChunks encoded index 0 0)))
         (lng_e5 + unzigzag (snd (readChunks encoded (fst (readChunks encoded index 0 0)) 0 0)))
         (points @
           [\<lparr>lat = real_of_int (lat_e5 + unzigzag (snd (readChunks encoded index 0 0))) / 100000,
             lng = real_of_int (lng_e5 + unzigzag
                     (snd (readChunks encoded (fst (readChunks encoded index 0 0)) 0 0))) / 100000\<rparr>])"
  by (subst decodeLoop.simps) (simp add: Let_def)

lemma decodeLoop_done:
  "\<not> index < length encoded \<Longrightarrow> decodeLoop encoded index lat_e5 lng_e5 points = points"
  by (subst decodeLoop.simps) simp

lemma decodeLoop_length:
  "length points \<le> length (decodeLoop encoded index lat_e5 lng_e5 points)
   \<and> (index < length encoded \<longrightarrow>
        length points < length (decodeLoop encoded index lat_e5 lng_e5 points))"
proof (induction encoded index lat_e5 lng_e5 points rule: decodeLoop.induct)
  case (1 encoded index lat_e5 lng_e5 points)
  show ?case
  proof (cases "index < length encoded")
    case True
    from 1 [OF True refl refl refl refl] show ?thesis
      by (simp add: decodeLoop_unfold [OF True])
  next
    case False
    then show ?thesis by (simp add: decodeLoop_done)
  qed
qed

lemma decodeLoop_bound:
  "2 * (length (decodeLoop encoded index lat_e5 lng_e5 points) - length points)
     \<le> length encoded + 1 - index"
proof (induction encoded index lat_e5 lng_e5 points rule: decodeLoop.induct)
  case (1 encoded index lat_e5 lng_e5 points)
  show ?case
  proof (cases "index < length encoded")
    case True
    have "index < fst (readChunks encoded index 0 0)" by (rule readChunks_index)
    moreover have "fst (readChunks encoded index 0 0)
        < fst (readChunks encoded (fst (readChunks encoded index 0 0)) 0 0)"
      by (rule readChunks_index)
    ultimately have step:
      "index + 2 \<le> fst (readChunks encoded (fst (readChunks encoded index 0 0)) 0 0)"
      by simp
    from 1 [OF True refl refl refl refl] step True show ?thesis
      by (simp add: decodeLoop_unfold [OF True])
  next
    case False
    then show ?thesis by (simp add: decodeLoop_done)
  qed
qed

text \<open>
  Claim C6, as stated, has every malformed input decode to the empty sequence. The
  one-character strings \<open>?\<close> (a latitude with no longitude) and \<open>_\<close> (a chunk that
  announces a continuation and then ends) are malformed, and each decodes to one point.
\<close>

theorem decodePolyline_malformed_counterexample:
  "\<not> spec_wellFormedPolyline (codeUnits ''?'')
   \<and> decodePolyline (codeUnits ''?'') = [\<lparr>lat = 0, lng = 0\<rparr>]
   \<and> \<not> spec_wellFormedPolyline (codeUnits ''_'')
   \<and> decodePolyline (codeUnits ''_'') \<noteq> []"
  by code_simp

text \<open>
  Claim C6, amended. \<open>decodePolyline\<close> is total: it returns a point list for every
  input string and has no failing branch. The result is empty exactly for the empty
  string; every other input, malformed or not, gives at least one point, and never more
  than one point for every two characters (rounded up).
\<close>

theorem decodePolyline_empty_iff:
  "(decodePolyline encoded = []) = (encoded = [])
   \<and> 2 * length (decodePolyline encoded) \<le> length encoded + 1"
proof -
  have a: "decodePolyline encoded \<noteq> []" if "encoded \<noteq> []"
    using decodeLoop_length [of "[]" encoded 0 0 0] that by (auto simp: decodePolyline_def)
  have b: "decodePolyline [] = []"
    by (simp add: decodePolyline_def decodeLoop_done)
  have c: "2 * length (decodePolyline encoded) \<le> length encoded + 1"
    using decodeLoop_bound [of encoded 0 0 0 "[]"] by (simp add: decodePolyline_def)
  show ?thesis using a b c by auto
qed

theorem decodePolyline_empty_iff_witness:
  "decodePolyline (codeUnits []) = []
   \<and> decodePolyline (codeUnits ''?'') \<noteq> []
   \<and> 2 * length (decodePolyline (codeUnits ''?'')) \<le> 2"
  using decodePolyline_empty_iff [of "codeUnits []"] decodePolyline_empty_iff [of "codeUnits ''?''"]
  by (simp add: codeUnits_def)


section \<open>Properties of the Pre-cache Manager\<close>

subsection \<open>Eviction\<close>

lemma trimLoop_drop: "distinct s \<Longrightarrow> trimLoop n s s = drop n s"
proof (induction n arbitrary: s)
  case 0
  then show ?case by simp
next
  case (Suc n)
  show ?case
  proof (cases s)
    case Nil
    then show ?thesis by simp
  next
    case (Cons k s')
    with Suc.prems have "set_delete k s = s'" by (simp add: set_delete_def)
    with Cons Suc.prems Suc.IH [of s'] show ?thesis by simp
  qed
qed

lemma cached_trimCache:
  "distinct (cached cm) \<Longrightarrow>
     cached (trimCache cm) = drop (length (cached cm) - maxCacheSize cm) (cached cm)"
  by (simp add: trimCache_def trimLoop_drop Let_def)

lemma trimCache_other [simp]:
  "loading (trimCache cm) = loading cm" "maxCacheSize (trimCache cm) = maxCacheSize cm"
  "cacheAhead (trimCache cm) = cacheAhead cm"
  by (simp_all add: trimCache_def Let_def)

lemma trimLoop_subset: "set (trimLoop n it s) \<subseteq> set s"
  by (induction n it s rule: trimLoop.induct) (auto simp: set_delete_def)

lemma cached_trimCache_subset: "set (cached (trimCache cm)) \<subseteq> set (cached cm)"
  using trimLoop_subset by (auto simp: trimCache_def Let_def)

lemma complete_one:
  assumes "distinct (cached cm)" and "k = taskKey task" and "k \<notin> set (cached cm)"
  shows "cached (snd (precachePoint_afterPanorama task (Fulfilled ()) cm))
           = drop (length (cached cm) + 1 - maxCacheSize cm) (cached cm @ [k])"
    and "maxCacheSize (snd (precachePoint_afterPanorama task (Fulfilled ()) cm)) = maxCacheSize cm"
  using assms
  by (simp_all add: precachePoint_afterPanorama_def precachePoint_finish_def cached_trimCache
      set_add_def set_has_def)

lemma completeAll_cached:
  "distinct (cached cm @ map taskKey tasks) \<Longrightarrow> length (cached cm) \<le> maxCacheSize cm \<Longrightarrow>
     cached (completeAll tasks cm)
       = drop (length (cached cm) + length tasks - maxCacheSize cm) (cached cm @ map taskKey tasks)
     \<and> maxCacheSize (completeAll tasks cm) = maxCacheSize cm"
proof (induction tasks arbitrary: cm)
  case Nil
  then show ?case by (simp add: completeAll_def)
next
  case (Cons t ts)
  define cm1 where "cm1 = snd (precachePoint_afterPanorama t (Fulfilled ()) cm)"
  have d: "distinct (cached cm)" and new: "taskKey t \<notin> set (cached cm)"
    using Cons.prems(1) by auto
  have c1: "cached cm1 = drop (length (cached cm) + 1 - maxCacheSize cm) (cached cm @ [taskKey t])"
    and m1: "maxCacheSize cm1 = maxCacheSize cm"
    unfolding cm1_def using complete_one [OF d refl new] by auto
  have unfold: "completeAll (t # ts) cm = completeAll ts cm1"
    by (simp add: completeAll_def cm1_def)
  show ?case
  proof (cases "length (cached cm) < maxCacheSize cm")
    case True
    then have c1': "cached cm1 = cached cm @ [taskKey t]" using c1 by simp
    have "distinct (cached cm1 @ map taskKey ts)" using Cons.prems(1) c1' by simp
    moreover have "length (cached cm1) \<le> maxCacheSize cm1" using True c1' m1 by simp
    ultimately show ?thesis using Cons.IH [of cm1] unfold c1' m1 by simp
  next
    case False
    with Cons.prems(2) have full: "length (cached cm) = maxCacheSize cm" by simp
    then have c1': "cached cm1 = drop 1 (cached cm @ [taskKey t])" using c1 by simp
    have len1: "length (cached cm1) = maxCacheSize cm" using c1' full by simp
    have app: "cached cm1 @ map taskKey ts = drop 1 (cached cm @ taskKey t # map taskKey ts)"
      using c1' by (cases "cached cm") simp_all
    have "distinct (cached cm1 @ map taskKey ts)"
      unfolding app using Cons.prems(1) by (intro distinct_drop) simp
    moreover have "length (cached cm1) \<le> maxCacheSize cm1" using len1 m1 by simp
    ultimately have ih: "cached (completeAll ts cm1)
        = drop (length (cached cm1) + length ts - maxCacheSize cm1) (cached cm1 @ map taskKey ts)"
      and ihm: "maxCacheSize (completeAll ts cm1) = maxCacheSize cm1"
      using Cons.IH [of cm1] by auto
    have e2: "length (cached cm1) + length ts - maxCacheSize cm1 = length ts"
      using len1 m1 by simp
    have e4: "length (cached cm) + length (t # ts) - maxCacheSize cm = length ts + 1"
      using full by simp
    have "cached (completeAll (t # ts) cm)
        = drop (length ts) (drop 1 (cached cm @ taskKey t # map taskKey ts))"
      by (simp only: unfold ih e2 app)
    also have "\<dots> = drop (length ts + 1) (cached cm @ taskKey t # map taskKey ts)"
      by (simp only: drop_drop)
    finally have "cached (completeAll (t # ts) cm)
        = drop (length (cached cm) + length (t # ts) - maxCacheSize cm)
            (cached cm @ map taskKey (t # ts))"
      by (simp only: e4 list.map)
    then show ?thesis using unfold ihm m1 by simp
  qed
qed

text \<open>
  Claim C7. Let the cached set hold at most \<open>maxCacheSize\<close> keys, and let further keys,
  all distinct and none of them in the set, be inserted one after the other, so that more
  than \<open>maxCacheSize\<close> keys were inserted in all. Then the set holds exactly \<open>maxCacheSize\<close>
  keys: the newest ones, in insertion order. The keys that are gone are exactly the
  earliest-inserted ones, and the bound held after every single insertion.
\<close>

theorem cache_eviction_oldest_first:
  assumes "distinct (cached cm @ map taskKey tasks)"
    and "length (cached cm) \<le> maxCacheSize cm"
    and "maxCacheSize cm < length (cached cm) + length tasks"
  shows "length (cached (completeAll tasks cm)) = maxCacheSize cm
     \<and> cached (completeAll tasks cm)
         = drop (length (cached cm) + length tasks - maxCacheSize cm)
             (cached cm @ map taskKey tasks)
     \<and> set (cached cm @ map taskKey tasks) - set (cached (completeAll tasks cm))
         = set (take (length (cached cm) + length tasks - maxCacheSize cm)
                  (cached cm @ map taskKey tasks))
     \<and> (\<forall>n \<le> length tasks.
           length (cached (completeAll (take n tasks) cm)) \<le> maxCacheSize cm)"
proof -
  let ?all = "cached cm @ map taskKey tasks"
  let ?k = "length (cached cm) + length tasks - maxCacheSize cm"
  have eq: "cached (completeAll tasks cm) = drop ?k ?all"
    using completeAll_cached [OF assms(1,2)] by simp
  have len: "length (cached (completeAll tasks cm)) = maxCacheSize cm"
    using assms(3) by (simp add: eq)
  have "set ?all - set (drop ?k ?all) = set (take ?k ?all)"
  proof -
    have "distinct (take ?k ?all @ drop ?k ?all)"
      using assms(1) by (simp only: append_take_drop_id)
    then have "set (take ?k ?all) \<inter> set (drop ?k ?all) = {}" by (simp only: distinct_append)
    moreover have "set ?all = set (take ?k ?all) \<union> set (drop ?k ?all)"
      by (metis append_take_drop_id set_append)
    ultimately show ?thesis by blast
  qed
  then have removed: "set ?all - set (cached (completeAll tasks cm)) = set (take ?k ?all)"
    by (simp only: eq)
  have bound: "length (cached (completeAll (take n tasks) cm)) \<le> maxCacheSize cm"
    if "n \<le> length tasks" for n
  proof -
    have "cached cm @ map taskKey (take n tasks) = take (length (cached cm) + n) ?all"
      by (simp add: take_map)
    then have "distinct (cached cm @ map taskKey (take n tasks))"
      using distinct_take [OF assms(1)] by (simp only:)
    from completeAll_cached [OF this assms(2)] show ?thesis
      using assms(2) by (simp add: min_def)
  qed
  show ?thesis using len eq removed bound by blast
qed

lemma toFixed5_thousandth: "toFixed5 (real i / 1000) = (False, 100 * int i)"
proof -
  have "\<lfloor>\<bar>real i / 1000\<bar> * 100000 + 1 / 2\<rfloor> = 100 * int i"
    by (rule floor_unique) simp_all
  moreover have "\<not> real i / 1000 < 0" by simp
  ultimately show ?thesis by (simp only: toFixed5_def)
qed

lemma toFixed5_zero: "toFixed5 0 = (False, 0)"
  by (simp add: toFixed5_def)

lemma taskKey_exampleTask: "taskKey (exampleTask i) = ((False, 100 * int i), (False, 0))"
  by (simp add: exampleTask_def getPointKey_def toFixed5_thousandth toFixed5_zero)

lemma distinct_exampleTasks: "distinct (map (taskKey \<circ> exampleTask) [0..<n])"
  by (simp add: distinct_map inj_on_def taskKey_exampleTask)

theorem cache_eviction_oldest_first_witness:
  "distinct (cached newCacheManager @ map taskKey (map exampleTask [0..<51]))
   \<and> length (cached newCacheManager) \<le> maxCacheSize newCacheManager
   \<and> maxCacheSize newCacheManager
        < length (cached newCacheManager) + length (map exampleTask [0..<51])
   \<and> length (cached (completeAll (map exampleTask [0..<51]) newCacheManager)) = 50
   \<and> cached (completeAll (map exampleTask [0..<51]) newCacheManager)
        = map taskKey (map exampleTask [1..<51])"
proof -
  have h1: "distinct (cached newCacheManager @ map taskKey (map exampleTask [0..<51]))"
    using distinct_exampleTasks [of 51] by (simp add: newCacheManager_def)
  have h2: "length (cached newCacheManager) \<le> maxCacheSize newCacheManager"
    by (simp add: newCacheManager_def)
  have h3: "maxCacheSize newCacheManager
      < length (cached newCacheManager) + length (map exampleTask [0..<51])"
    by (simp add: newCacheManager_def)
  have d: "drop 1 (map taskKey (map exampleTask [0..<51])) = map taskKey (map exampleTask [1..<51])"
    by (simp only: drop_map drop_upt) simp
  have m: "maxCacheSize newCacheManager = 50" "cached newCacheManager = []"
    by (simp_all add: newCacheManager_def)
  from cache_eviction_oldest_first [OF h1 h2 h3] have
    "length (cached (completeAll (map exampleTask [0..<51]) newCacheManager)) = 50"
    and "cached (completeAll (map exampleTask [0..<51]) newCacheManager)
          = drop 1 (map taskKey (map exampleTask [0..<51]))"
    by (simp_all add: m)
  with h1 h2 h3 d show ?thesis by simp
qed

subsection \<open>Loading and cached keys; warming twice\<close>

lemma precachePoint_finish_sets:
  "set (loading (precachePoint_finish key cm)) = set (loading cm) - {key}"
  "set (cached (precachePoint_finish key cm)) \<subseteq> set (cached cm)"
  using cached_trimCache_subset [of "cm\<lparr>loading := set_delete key (loading cm)\<rparr>"]
  by (auto simp: precachePoint_finish_def set_delete_def)

lemma precacheLoop_props:
  "precacheLoop ups started cm = (st', cm') \<Longrightarrow>
     cm' = cm\<lparr>loading := loading cm'\<rparr>
     \<and> set (loading cm') = set (loading cm) \<union> (getPointKey ` set ups - set (cached cm))
     \<and> (\<exists>new. st' = started @ new \<and> distinct (map taskKey new)
            \<and> set (map taskKey new) = getPointKey ` set ups - set (cached cm) - set (loading cm))"
proof (induction ups arbitrary: started cm)
  case Nil
  then show ?case by auto
next
  case (Cons p ups)
  let ?key = "getPointKey p"
  show ?case
  proof (cases "?key \<notin> set (cached cm) \<and> ?key \<notin> set (loading cm)")
    case True
    define task where "task = \<lparr>taskPoint = p, taskKey = ?key, taskPc = AwaitFindNearestPanoId\<rparr>"
    define cm1 where "cm1 = cm\<lparr>loading := loading cm @ [?key]\<rparr>"
    have call: "precachePoint_call p cm = (Some task, cm1)"
      using True by (simp add: precachePoint_call_def set_has_def set_add_def task_def cm1_def Let_def)
    have "precacheLoop ups (started @ [task]) cm1 = (st', cm')"
      using Cons.prems True call by (simp add: set_has_def)
    from Cons.IH [OF this] obtain new where
      a: "cm' = cm1\<lparr>loading := loading cm'\<rparr>"
      and b: "set (loading cm') = set (loading cm1) \<union> (getPointKey ` set ups - set (cached cm1))"
      and c: "st' = (started @ [task]) @ new" "distinct (map taskKey new)"
        "set (map taskKey new) = getPointKey ` set ups - set (cached cm1) - set (loading cm1)"
      by blast
    have k: "taskKey task = ?key" by (simp add: task_def)
    have "cm' = cm\<lparr>loading := loading cm'\<rparr>" using a by (simp add: cm1_def)
    moreover have "set (loading cm') = set (loading cm) \<union> (getPointKey ` set (p # ups) - set (cached cm))"
      using b True by (auto simp: cm1_def)
    moreover have "st' = started @ (task # new)" using c(1) by simp
    moreover have "distinct (map taskKey (task # new))" using c(2,3) k by (auto simp: cm1_def)
    moreover have "set (map taskKey (task # new))
        = getPointKey ` set (p # ups) - set (cached cm) - set (loading cm)"
      using c(3) k True by (auto simp: cm1_def)
    ultimately show ?thesis by blast
  next
    case False
    then have "precacheLoop ups started cm = (st', cm')"
      using Cons.prems by (auto simp: set_has_def)
    from Cons.IH [OF this] obtain new where
      a: "cm' = cm\<lparr>loading := loading cm'\<rparr>"
      and b: "set (loading cm') = set (loading cm) \<union> (getPointKey ` set ups - set (cached cm))"
      and c: "st' = started @ new" "distinct (map taskKey new)"
        "set (map taskKey new) = getPointKey ` set ups - set (cached cm) - set (loading cm)"
      by blast
    have "set (loading cm') = set (loading cm) \<union> (getPointKey ` set (p # ups) - set (cached cm))"
      using b False by auto
    moreover have "set (map taskKey new)
        = getPointKey ` set (p # ups) - set (cached cm) - set (loading cm)"
      using c(3) False by auto
    ultimately show ?thesis using a c(1,2) by blast
  qed
qed

lemma precacheLoop_known:
  "getPointKey ` set ups \<subseteq> set (cached cm) \<union> set (loading cm) \<Longrightarrow>
     precacheLoop ups started cm = (started, cm)"
  by (induction ups arbitrary: started cm) (auto simp: set_has_def)

lemma precacheRoute_twice:
  "fst (precacheRoute wps idx (snd (precacheRoute wps idx cm))) = []
   \<and> snd (precacheRoute wps idx (snd (precacheRoute wps idx cm))) = snd (precacheRoute wps idx cm)
   \<and> distinct (map taskKey (fst (precacheRoute wps idx cm)))
   \<and> set (map taskKey (fst (precacheRoute wps idx cm))) \<inter> (set (loading cm) \<union> set (cached cm)) = {}
   \<and> set (map taskKey (fst (precacheRoute wps idx cm)))
        \<subseteq> set (loading (snd (precacheRoute wps idx cm)))"
proof -
  define ups where "ups = slice wps idx (idx + cacheAhead cm)"
  obtain st1 cm1 where r1: "precacheLoop ups [] cm = (st1, cm1)" by (cases "precacheLoop ups [] cm")
  from precacheLoop_props [OF r1] obtain new where
    a: "cm1 = cm\<lparr>loading := loading cm1\<rparr>"
    and b: "set (loading cm1) = set (loading cm) \<union> (getPointKey ` set ups - set (cached cm))"
    and c: "st1 = [] @ new" "distinct (map taskKey new)"
      "set (map taskKey new) = getPointKey ` set ups - set (cached cm) - set (loading cm)"
    by blast
  have first: "precacheRoute wps idx cm = (st1, cm1)"
    using r1 by (simp add: precacheRoute_def ups_def)
  have ahead: "cacheAhead cm1 = cacheAhead cm" and cached1: "cached cm1 = cached cm"
    by (subst a, simp)+
  have "getPointKey ` set ups \<subseteq> set (cached cm1) \<union> set (loading cm1)"
    using b cached1 by auto
  from precacheLoop_known [OF this, of "[]"]
  have second: "precacheRoute wps idx cm1 = ([], cm1)"
    by (simp add: precacheRoute_def ups_def ahead)
  show ?thesis using first second b c by auto
qed

lemma cache_inv_step: "cache_inv cm \<Longrightarrow> cache_inv (cache_step e cm)"
proof (cases e)
  case (CallPrecacheRoute wps idx)
  assume inv: "cache_inv cm"
  define ups where "ups = slice wps idx (idx + cacheAhead cm)"
  obtain st1 cm1 where r1: "precacheLoop ups [] cm = (st1, cm1)" by (cases "precacheLoop ups [] cm")
  from precacheLoop_props [OF r1] have
    a: "cm1 = cm\<lparr>loading := loading cm1\<rparr>"
    and b: "set (loading cm1) = set (loading cm) \<union> (getPointKey ` set ups - set (cached cm))"
    by blast+
  have "cached cm1 = cached cm" by (subst a) simp
  with b inv have "cache_inv cm1" by (auto simp: cache_inv_def)
  then show ?thesis using CallPrecacheRoute r1 by (simp add: precacheRoute_def ups_def)
next
  case (CallPrecachePoint p)
  assume "cache_inv cm"
  then show ?thesis using CallPrecachePoint
    by (auto simp: cache_inv_def precachePoint_call_def set_has_def set_add_def Let_def)
next
  case (ResumePrecachePoint task outcome)
  assume inv: "cache_inv cm"
  have f1: "cache_inv (precachePoint_finish (taskKey task) cm)"
    using inv precachePoint_finish_sets [of "taskKey task" cm] by (auto simp: cache_inv_def)
  have f2: "cache_inv (precachePoint_finish (taskKey task)
              (cm\<lparr>cached := set_add (taskKey task) (cached cm)\<rparr>))"
    using inv precachePoint_finish_sets
      [of "taskKey task" "cm\<lparr>cached := set_add (taskKey task) (cached cm)\<rparr>"]
    by (auto simp: cache_inv_def set_add_def set_has_def split: if_splits)
  show ?thesis using ResumePrecachePoint inv f1 f2
    by (auto simp: precachePoint_resume_def precachePoint_afterFind_def
        precachePoint_afterPanorama_def split: precache_pc.splits settled.splits option.splits)
next
  case (ImageLoaded url)
  assume "cache_inv cm"
  then show ?thesis using ImageLoaded by (simp add: cache_inv_def preloadImage_onload_def)
next
  case CallClear
  then show ?thesis by (simp add: cache_inv_def clearCache_def)
next
  case (CallSetCacheAhead n)
  assume "cache_inv cm"
  then show ?thesis using CallSetCacheAhead by (simp add: cache_inv_def setCacheAhead_def)
qed

lemma cache_inv_run: "cache_inv cm \<Longrightarrow> cache_inv (cache_run events cm)"
  unfolding cache_run_def
  by (induction events arbitrary: cm) (auto intro: cache_inv_step)

text \<open>
  Claim C8. After every schedule, started from a new cache manager, no key is in both the
  loading and the cached set. And when \<open>precacheRoute\<close> is called twice in a row on the
  same window, in any state, the second call starts no fetch sequence and changes nothing;
  the sequences the first call started have distinct keys, none of which was loading or
  cached before, and all of which are marked as loading.
\<close>

theorem loading_cached_disjoint_and_warm_once:
  "set (loading (cache_run events newCacheManager))
     \<inter> set (cached (cache_run events newCacheManager)) = {}
   \<and> fst (precacheRoute wps idx (snd (precacheRoute wps idx cm))) = []
   \<and> snd (precacheRoute wps idx (snd (precacheRoute wps idx cm))) = snd (precacheRoute wps idx cm)
   \<and> distinct (map taskKey (fst (precacheRoute wps idx cm)))
   \<and> set (map taskKey (fst (precacheRoute wps idx cm))) \<inter> (set (loading cm) \<union> set (cached cm)) = {}
   \<and> set (map taskKey (fst (precacheRoute wps idx cm)))
        \<subseteq> set (loading (snd (precacheRoute wps idx cm)))"
proof -
  have "cache_inv newCacheManager" by (simp add: cache_inv_def newCacheManager_def)
  then have "cache_inv (cache_run events newCacheManager)" by (rule cache_inv_run)
  then show ?thesis using precacheRoute_twice [of wps idx cm] by (simp add: cache_inv_def)
qed

theorem loading_cached_disjoint_and_warm_once_witness:
  "set (loading (cache_run exampleSchedule newCacheManager))
     \<inter> set (cached (cache_run exampleSchedule newCacheManager)) = {}
   \<and> fst (precacheRoute (waypoints threePointRoute) 0
          (snd (precacheRoute (waypoints threePointRoute) 0 newCacheManager))) = []
   \<and> map taskKey (fst (precacheRoute (waypoints threePointRoute) 0 newCacheManager))
        = [((False, 0), (False, 0)), ((False, 0), (False, 10)), ((False, 0), (False, 20))]"
proof -
  have "map taskKey (fst (precacheRoute
          [\<lparr>lat = 0, lng = 0\<rparr>, \<lparr>lat = 0, lng = 1 / 10000\<rparr>, \<lparr>lat = 0, lng = 2 / 10000\<rparr>]
          0 newCacheManager))
      = [((False, 0), (False, 0)), ((False, 0), (False, 10)), ((False, 0), (False, 20))]"
    by code_simp
  then have keys:
    "map taskKey (fst (precacheRoute (waypoints threePointRoute) 0 newCacheManager))
      = [((False, 0), (False, 0)), ((False, 0), (False, 10)), ((False, 0), (False, 20))]"
    by (simp add: threePointRoute_def)
  from loading_cached_disjoint_and_warm_once
    [of exampleSchedule "waypoints threePointRoute" 0 newCacheManager]
  show ?thesis using keys by simp
qed


section \<open>Properties of the Transition Engine\<close>

lemma transitionTo_call_busy:
  "isTransitioning (fst s) \<Longrightarrow> transitionTo_call t h cap r s = (Returned False, s)"
  by (cases s) (simp add: transitionTo_call_def)

lemma transitionTo_call_enters:
  assumes "enabled (settings (fst s))" and "\<not> isTransitioning (fst s)"
  shows "\<exists>task s'. transitionTo_call t h cap r s = (Suspended task, s')
           \<and> tpc task = Delay50 \<and> isTransitioning (fst s') \<and> snd s' = snd s"
  using assms
  by (cases s) (auto simp: transitionTo_call_def Let_def split: option.splits)

lemma resume_rejected:
  "inProgress (tpc task) \<Longrightarrow>
     transitionTo_resume task Rejected reply (e, v)
       = (Returned False,
          (e\<lparr>imageOverlayOpacity := 0, overlayOpacity := 0, isTransitioning := False\<rparr>, v))"
  by (cases "tpc task") (simp_all add: transitionTo_resume_def transitionTo_catch_def inProgress_def)

lemma resume_fulfilled:
  assumes "inProgress (tpc task)"
  shows "(\<exists>task' e' v'. transitionTo_resume task (Fulfilled u) reply (e, v)
                     = (Suspended task', (e', v'))
                \<and> isTransitioning e' = isTransitioning e
                \<and> inProgress (tpc task') \<and> Suc (awaitsLeft (tpc task')) \<le> awaitsLeft (tpc task))
         \<or> (tpc task = FadeDelay
            \<and> transitionTo_resume task (Fulfilled u) reply (e, v)
                = (Returned True, (e\<lparr>isTransitioning := False\<rparr>, v)))"
  using assms
  by (cases "tpc task")
     (auto simp: transitionTo_resume_def inProgress_def split: option.splits)

lemma resumeAll_Returned [simp]: "resumeAll inputs (Returned b, s) = (Returned b, s)"
  by (cases inputs) simp_all

lemma resumeAll_Thrown [simp]: "resumeAll inputs (Thrown, s) = (Thrown, s)"
  by (cases inputs) simp_all

lemma resume_step:
  assumes "inProgress (tpc task)"
    and "transitionTo_resume task awaited reply s = (st, s')"
  shows "st \<noteq> Thrown"
    and "st = Returned b \<Longrightarrow> \<not> isTransitioning (fst s') \<and> (b \<longleftrightarrow> awaited \<noteq> Rejected)"
    and "st = Returned False \<Longrightarrow> overlayOpacity (fst s') = 0 \<and> imageOverlayOpacity (fst s') = 0"
    and "st = Suspended task' \<Longrightarrow>
           inProgress (tpc task') \<and> awaited \<noteq> Rejected
           \<and> isTransitioning (fst s') = isTransitioning (fst s)
           \<and> Suc (awaitsLeft (tpc task')) \<le> awaitsLeft (tpc task)"
proof -
  obtain e v where s: "s = (e, v)" by (cases s)
  show "st \<noteq> Thrown"
  proof (cases awaited)
    case (Fulfilled u)
    with resume_fulfilled [OF assms(1), of u reply e v] assms(2) s show ?thesis by auto
  next
    case Rejected
    with resume_rejected [OF assms(1), of reply e v] assms(2) s show ?thesis by auto
  qed
  show "\<not> isTransitioning (fst s') \<and> (b \<longleftrightarrow> awaited \<noteq> Rejected)" if "st = Returned b"
  proof (cases awaited)
    case (Fulfilled u)
    with resume_fulfilled [OF assms(1), of u reply e v] assms(2) s that show ?thesis by auto
  next
    case Rejected
    with resume_rejected [OF assms(1), of reply e v] assms(2) s that show ?thesis by auto
  qed
  show "overlayOpacity (fst s') = 0 \<and> imageOverlayOpacity (fst s') = 0" if "st = Returned False"
  proof (cases awaited)
    case (Fulfilled u)
    with resume_fulfilled [OF assms(1), of u reply e v] assms(2) s that show ?thesis by auto
  next
    case Rejected
    with resume_rejected [OF assms(1), of reply e v] assms(2) s that show ?thesis by auto
  qed
  show "inProgress (tpc task') \<and> awaited \<noteq> Rejected
        \<and> isTransitioning (fst s') = isTransitioning (fst s)
        \<and> Suc (awaitsLeft (tpc task')) \<le> awaitsLeft (tpc task)" if "st = Suspended task'"
  proof (cases awaited)
    case (Fulfilled u)
    with resume_fulfilled [OF assms(1), of u reply e v] assms(2) s that show ?thesis
      by (auto split: if_splits)
  next
    case Rejected
    with resume_rejected [OF assms(1), of reply e v] assms(2) s that show ?thesis by auto
  qed
qed

lemma resumeAll_settles:
  "inProgress (tpc task) \<Longrightarrow> awaitsLeft (tpc task) \<le> length inputs \<Longrightarrow>
     \<exists>b s'. resumeAll inputs (Suspended task, s) = (Returned b, s') \<and> \<not> isTransitioning (fst s')
            \<and> (\<not> b \<longrightarrow> overlayOpacity (fst s') = 0 \<and> imageOverlayOpacity (fst s') = 0)"
proof (induction inputs arbitrary: task s)
  case Nil
  then show ?case by (cases "tpc task") simp_all
next
  case (Cons x inputs)
  obtain awaited reply where x: "x = (awaited, reply)" by (cases x)
  obtain st s1 where r: "transitionTo_resume task awaited reply s = (st, s1)"
    by (cases "transitionTo_resume task awaited reply s")
  note step = resume_step [OF Cons.prems(1) r]
  show ?case
  proof (cases st)
    case (Suspended task')
    from step(4) [OF Suspended] Cons.prems(2)
    have "inProgress (tpc task')" "awaitsLeft (tpc task') \<le> length inputs" by auto
    from Cons.IH [OF this, of s1] show ?thesis using x r Suspended by simp
  next
    case (Returned b)
    with step(2) [OF Returned] step(3) x r show ?thesis by (cases b) auto
  next
    case Thrown
    with step(1) show ?thesis by simp
  qed
qed

lemma resumeAll_holds_lock:
  "inProgress (tpc task) \<Longrightarrow> isTransitioning (fst s) \<Longrightarrow>
     resumeAll inputs (Suspended task, s) = (Suspended task', s') \<Longrightarrow>
     inProgress (tpc task') \<and> isTransitioning (fst s')"
proof (induction inputs arbitrary: task s)
  case Nil
  then show ?case by simp
next
  case (Cons x inputs)
  obtain awaited reply where x: "x = (awaited, reply)" by (cases x)
  obtain st s1 where r: "transitionTo_resume task awaited reply s = (st, s1)"
    by (cases "transitionTo_resume task awaited reply s")
  note step = resume_step [OF Cons.prems(1) r]
  show ?case
  proof (cases st)
    case (Suspended task1)
    from step(4) [OF Suspended] Cons.prems(2)
    have "inProgress (tpc task1)" "isTransitioning (fst s1)" by auto
    from Cons.IH [OF this] Cons.prems(3) x r Suspended show ?thesis by simp
  next
    case (Returned b)
    with Cons.prems(3) x r show ?thesis by simp
  next
    case Thrown
    with step(1) show ?thesis by simp
  qed
qed

text \<open>
  Claim C1. In every state in which \<open>isTransitioning\<close> is set, a call of \<open>transitionTo\<close>
  returns false at once and changes nothing: not the opacity or source of either overlay,
  not the viewer. And a first call that entered \<open>InProgress\<close> keeps \<open>isTransitioning\<close> set
  at every await it is suspended at, so a second call issued before the first has settled
  is rejected in this way.
\<close>

theorem transitionTo_second_call_rejected:
  "(isTransitioning (fst s) \<longrightarrow> transitionTo_call t h cap r s = (Returned False, s))
   \<and> (enabled (settings (fst s0)) \<and> \<not> isTransitioning (fst s0)
        \<and> resumeAll inputs (transitionTo_call t1 h1 cap1 r1 s0) = (Suspended task, s1)
      \<longrightarrow> isTransitioning (fst s1) \<and> transitionTo_call t h cap r s1 = (Returned False, s1))"
proof -
  have second: "isTransitioning (fst s1) \<and> transitionTo_call t h cap r s1 = (Returned False, s1)"
    if en: "enabled (settings (fst s0))" and idle: "\<not> isTransitioning (fst s0)"
      and run: "resumeAll inputs (transitionTo_call t1 h1 cap1 r1 s0) = (Suspended task, s1)"
  proof -
    from transitionTo_call_enters [OF en idle, of t1 h1 cap1 r1] obtain task0 s' where
      c: "transitionTo_call t1 h1 cap1 r1 s0 = (Suspended task0, s')"
      and pc: "tpc task0 = Delay50" and busy: "isTransitioning (fst s')"
      by blast
    have "inProgress (tpc task0)" using pc by (simp add: inProgress_def)
    from resumeAll_holds_lock [OF this busy] run c have "isTransitioning (fst s1)" by simp
    then show ?thesis using transitionTo_call_busy by blast
  qed
  show ?thesis using second transitionTo_call_busy by blast
qed

theorem transitionTo_second_call_rejected_witness:
  "enabled (settings (fst exampleIdle)) \<and> \<not> isTransitioning (fst exampleIdle)
   \<and> resumeAll [(Fulfilled (), Applied), (Fulfilled (), Applied)]
        (transitionTo_call exampleTarget (Some 90) None Applied exampleIdle)
       = (Suspended (exampleTransition MoveSetPov), exampleBusy)
   \<and> isTransitioning (fst exampleBusy)
   \<and> transitionTo_call \<lparr>lat = 0, lng = 2 / 10000\<rparr> None (Some ''frame'') Applied exampleBusy
       = (Returned False, exampleBusy)"
proof -
  have h: "enabled (settings (fst exampleIdle))" "\<not> isTransitioning (fst exampleIdle)"
    by (simp_all add: exampleIdle_def newTransitionEngine_def)
  have run: "resumeAll [(Fulfilled (), Applied), (Fulfilled (), Applied)]
        (transitionTo_call exampleTarget (Some 90) None Applied exampleIdle)
       = (Suspended (exampleTransition MoveSetPov), exampleBusy)"
    by (simp add: transitionTo_call_def transitionTo_resume_def exampleIdle_def exampleBusy_def
        exampleTransition_def newTransitionEngine_def viewer_setPosition_def viewer_setPov_def Let_def)
  from transitionTo_second_call_rejected
    [where s = exampleBusy and t = "\<lparr>lat = 0, lng = 2 / 10000\<rparr>" and h = None
      and cap = "Some ''frame''" and r = Applied and ?s0.0 = exampleIdle
      and inputs = "[(Fulfilled (), Applied), (Fulfilled (), Applied)]"
      and ?t1.0 = exampleTarget and ?h1.0 = "Some 90" and ?cap1.0 = None and ?r1.0 = Applied
      and task = "exampleTransition MoveSetPov" and ?s1.0 = exampleBusy]
  show ?thesis using h run by simp
qed

text \<open>
  Claim C2. Let a call of \<open>transitionTo\<close> be suspended inside the \<open>try\<close> block. When the
  awaited promise is rejected, the call returns false with both overlays at opacity 0 and
  \<open>isTransitioning\<close> cleared. No resumption lets an exception out; one that returns has
  cleared \<open>isTransitioning\<close>, and returns true exactly when the awaited promise was
  fulfilled; one that suspends again is still inside the \<open>try\<close> block. And the call does
  settle: after at most six resumptions it has returned, with \<open>isTransitioning\<close> cleared,
  and with both overlays hidden when it returned false.
\<close>

theorem transitionTo_releases_lock:
  assumes "inProgress (tpc task)"
  shows "transitionTo_resume task Rejected reply (e, v)
           = (Returned False,
              (e\<lparr>imageOverlayOpacity := 0, overlayOpacity := 0, isTransitioning := False\<rparr>, v))
     \<and> fst (transitionTo_resume task awaited reply s) \<noteq> Thrown
     \<and> (\<forall>b. fst (transitionTo_resume task awaited reply s) = Returned b \<longrightarrow>
            \<not> isTransitioning (fst (snd (transitionTo_resume task awaited reply s)))
            \<and> (b \<longleftrightarrow> awaited \<noteq> Rejected))
     \<and> (\<forall>task'. fst (transitionTo_resume task awaited reply s) = Suspended task' \<longrightarrow>
            inProgress (tpc task') \<and> awaited \<noteq> Rejected)
     \<and> (6 \<le> length inputs \<longrightarrow>
          (\<exists>b s'. resumeAll inputs (Suspended task, s) = (Returned b, s')
             \<and> \<not> isTransitioning (fst s')
             \<and> (\<not> b \<longrightarrow> overlayOpacity (fst s') = 0 \<and> imageOverlayOpacity (fst s') = 0)))"
proof -
  obtain st s' where r: "transitionTo_resume task awaited reply s = (st, s')"
    by (cases "transitionTo_resume task awaited reply s")
  note step = resume_step [OF assms r]
  have left: "awaitsLeft (tpc task) \<le> 6" by (cases "tpc task") simp_all
  have run: "\<exists>b s'. resumeAll inputs (Suspended task, s) = (Returned b, s')
             \<and> \<not> isTransitioning (fst s')
             \<and> (\<not> b \<longrightarrow> overlayOpacity (fst s') = 0 \<and> imageOverlayOpacity (fst s') = 0)"
    if "6 \<le> length inputs"
    using resumeAll_settles [OF assms, of inputs s] left that by simp
  show ?thesis
    using resume_rejected [OF assms, of reply e v] step(1) step(2) step(4) run
    by (simp add: r)
qed

theorem transitionTo_releases_lock_witness:
  "inProgress (tpc (exampleTransition Delay50))
   \<and> transitionTo_call exampleTarget (Some 90) None Applied exampleIdle
       = (Suspended (exampleTransition Delay50), exampleStarted)
   \<and> transitionTo_resume (exampleTransition Delay50) Rejected Applied exampleStarted
       = (Returned False, exampleIdle)
   \<and> resumeAll [(Fulfilled (), Applied), (Fulfilled (), Applied), (Fulfilled (), Applied),
                (Fulfilled (), Applied), (Fulfilled (), Applied), (Fulfilled (), Applied)]
        (Suspended (exampleTransition Delay50), exampleStarted)
       = (Returned True, exampleDone)
   \<and> \<not> isTransitioning (fst exampleDone)"
proof -
  have h: "inProgress (tpc (exampleTransition Delay50))"
    by (simp add: exampleTransition_def inProgress_def)
  have run: "resumeAll [(Fulfilled (), Applied), (Fulfilled (), Applied), (Fulfilled (), Applied),
                (Fulfilled (), Applied), (Fulfilled (), Applied), (Fulfilled (), Applied)]
        (Suspended (exampleTransition Delay50), exampleStarted)
       = (Returned True, exampleDone)"
    by (simp add: transitionTo_resume_def exampleStarted_def exampleDone_def
        exampleTransition_def newTransitionEngine_def viewer_setPosition_def viewer_setPov_def)
  have rej: "transitionTo_resume (exampleTransition Delay50) Rejected Applied exampleStarted
       = (Returned False, exampleIdle)"
    using transitionTo_releases_lock [OF h, where reply = Applied
        and e = "newTransitionEngine\<lparr>isTransitioning := True, overlayOpacity := 4 / 5\<rparr>"
        and v = "\<lparr>position = None, heading = 0, pitch = 0\<rparr>", THEN conjunct1]
    by (simp add: exampleStarted_def exampleIdle_def newTransitionEngine_def)
  have idle: "\<not> isTransitioning (fst exampleDone)"
    by (simp add: exampleDone_def newTransitionEngine_def)
  have call: "transitionTo_call exampleTarget (Some 90) None Applied exampleIdle
       = (Suspended (exampleTransition Delay50), exampleStarted)"
    by (simp add: transitionTo_call_def exampleIdle_def exampleStarted_def
        exampleTransition_def newTransitionEngine_def Let_def)
  show ?thesis using h rej run idle call by simp
qed


section \<open>Properties of the playback orchestrator\<close>

lemma clearPlaybackTimer_fields [simp]:
  "route (clearPlaybackTimer s) = route s"
  "isPlaying (clearPlaybackTimer s) = isPlaying s"
  "isPaused (clearPlaybackTimer s) = isPaused s"
  "sent (clearPlaybackTimer s) = sent s"
  "speed (clearPlaybackTimer s) = speed s"
  "nextTimer (clearPlaybackTimer s) = nextTimer s"
  "set (timers (clearPlaybackTimer s)) \<subseteq> set (timers s)"
  by (auto simp: clearPlaybackTimer_def split: option.splits)



lemma advanceFrame_call_awaits:
  assumes "isPlaying s" and "\<not> isPaused s" and "getNextWaypoint (route s) = Some next"
  shows "advanceFrame_call cap reply s =
           (AdvanceAwaiting
              (fst (transitionTo_call next
                      (if autoHeading s then Some (getHeadingToNext (route s)) else None)
                      cap reply (transitions s, streetView s)))
              (fst (precacheRoute (waypoints (route s)) (currentIndex (route s)) (cache s))),
            s\<lparr>cache := snd (precacheRoute (waypoints (route s)) (currentIndex (route s)) (cache s)),
              transitions := fst (snd (transitionTo_call next
                      (if autoHeading s then Some (getHeadingToNext (route s)) else None)
                      cap reply (transitions s, streetView s))),
              streetView := snd (snd (transitionTo_call next
                      (if autoHeading s then Some (getHeadingToNext (route s)) else None)
                      cap reply (transitions s, streetView s)))\<rparr>)"
  using assms by (simp add: advanceFrame_call_def Let_def)

lemma advanceFrame_resume_cases:
  "advanceFrame_resume Rejected s = s"
  "advanceFrame_resume (Fulfilled False) s
     = (if isPlaying s \<and> \<not> isPaused s then scheduleTick (tickInterval s) s else s)"
  "route (advanceFrame_resume (Fulfilled True) s) = snd (advance (route s))"
  "sent (advanceFrame_resume (Fulfilled True) s)
     = sent s @ [ProgressMessage (getProgress (snd (advance (route s))))]"
  by (simp_all add: advanceFrame_resume_def Let_def sendProgressUpdate_def scheduleTick_def)

lemma playing_facts:
  "isPlaying playingController" "\<not> isPaused playingController"
  "route playingController = threePointRoute"
  "getNextWaypoint (route playingController) = Some \<lparr>lat = 0, lng = 1 / 10000\<rparr>"
  "timers playingController = []" "playbackTimer playingController = None"
  by (simp_all add: playingController_def newController_def threePointRoute_def
      getNextWaypoint_def arrayGet_def)

text \<open>
  Claim C3. In an advance cycle that invokes \<open>transitionTo\<close>, the part before the await
  leaves the route and the sent messages as they are. When \<open>transitionTo\<close> returns false,
  or throws, the resumption leaves the route (hence cursor and progress) unchanged and
  sends nothing; when it returns true the cursor is advanced by \<open>advance\<close> and the new
  progress is sent. So the resumption changes the cursor only if \<open>transitionTo\<close> returned
  true.
\<close>

theorem cursor_advances_only_on_success:
  "route (advanceFrame_resume (Fulfilled False) s) = route s
   \<and> sent (advanceFrame_resume (Fulfilled False) s) = sent s
   \<and> route (advanceFrame_resume Rejected s) = route s
   \<and> sent (advanceFrame_resume Rejected s) = sent s
   \<and> route (advanceFrame_resume (Fulfilled True) s) = snd (advance (route s))
   \<and> sent (advanceFrame_resume (Fulfilled True) s)
        = sent s @ [ProgressMessage (getProgress (snd (advance (route s))))]
   \<and> (fst (advanceFrame_call cap reply s) \<noteq> AdvanceReturned \<longrightarrow>
        route (snd (advanceFrame_call cap reply s)) = route s
        \<and> sent (snd (advanceFrame_call cap reply s)) = sent s)
   \<and> (currentIndex (route (advanceFrame_resume awaited s)) \<noteq> currentIndex (route s) \<longrightarrow>
        awaited = Fulfilled True)"
proof -
  have call: "route (snd (advanceFrame_call cap reply s)) = route s
        \<and> sent (snd (advanceFrame_call cap reply s)) = sent s"
    if "fst (advanceFrame_call cap reply s) \<noteq> AdvanceReturned"
    using that by (auto simp: advanceFrame_call_def Let_def split: option.splits if_splits)
  have only: "awaited = Fulfilled True"
    if "currentIndex (route (advanceFrame_resume awaited s)) \<noteq> currentIndex (route s)"
  proof (cases awaited)
    case (Fulfilled b)
    with that show ?thesis
      by (cases b) (auto simp: advanceFrame_resume_cases scheduleTick_def split: if_splits)
  next
    case Rejected
    with that show ?thesis by (simp add: advanceFrame_resume_cases)
  qed
  show ?thesis
    using call only by (auto simp: advanceFrame_resume_cases scheduleTick_def)
qed

theorem cursor_advances_only_on_success_witness:
  "fst (advanceFrame_call None Applied playingController) \<noteq> AdvanceReturned
   \<and> currentIndex (route (snd (advanceFrame_call None Applied playingController))) = 0
   \<and> currentIndex (route (advanceFrame_resume (Fulfilled False) playingController)) = 0
   \<and> currentIndex (route (advanceFrame_resume Rejected playingController)) = 0
   \<and> currentIndex (route (advanceFrame_resume (Fulfilled True) playingController)) = 1"
proof -
  have aw: "fst (advanceFrame_call None Applied playingController) \<noteq> AdvanceReturned"
    using advanceFrame_call_awaits [OF playing_facts(1,2,4), of None Applied] by simp
  have adv: "currentIndex (snd (advance threePointRoute)) = 1"
    "currentIndex threePointRoute = 0"
    by (simp_all add: advance_def threePointRoute_def)
  from cursor_advances_only_on_success
    [where s = playingController and cap = None and reply = Applied and awaited = Rejected]
  show ?thesis using aw adv by (simp add: playing_facts)
qed





end
